theory Spec2Isabelle
  imports Complex_Main
begin

section \<open>Data model (core/models.py)\<close>

text \<open>
  The two dataclasses of the engine. Python floats are modelled as exact reals, so every
  statement below is about the arithmetic the code writes down, not about IEEE rounding.
  A stake is an \<open>int\<close> in Python when it was rounded and a \<open>float\<close> otherwise; both are
  embedded in \<open>real\<close>, and a rounded stake is the image of an integer.
\<close>

record Outcome =
  bookmaker :: string
  odds :: real
  market :: string

record ArbitrageOpportunity =
  event_name :: string
  outcomes :: "Outcome list"
  arbitrage_percentage :: real
  profit_margin :: real
  total_bankroll :: real
  stakes :: "real list"
  guaranteed_profit :: real
  roi :: real

text \<open>The exceptions the engine can raise: its own \<open>ValueError\<close>, the one of \<open>max\<close> and
  \<open>min\<close> on an empty sequence, and the \<open>ZeroDivisionError\<close> of float division.\<close>

datatype error = ValueError | ZeroDivisionError

section \<open>Python primitives used by the engine\<close>

text \<open>\<open>x / y\<close> on floats raises when the divisor is zero.\<close>

definition float_div :: "real \<Rightarrow> real \<Rightarrow> error + real" where
  "float_div x y = (if y = 0 then Inl ZeroDivisionError else Inr (x / y))"

text \<open>\<open>round(x)\<close> with one argument: the nearest integer, a tie going to the even one.\<close>

definition py_round :: "real \<Rightarrow> int" where
  "py_round x =
     (let f = \<lfloor>x\<rfloor>; d = x - of_int f
      in if d < 1 / 2 then f
         else if 1 / 2 < d then f + 1
         else if even f then f else f + 1)"

text \<open>\<open>max(xs)\<close> and \<open>min(xs)\<close>: \<open>ValueError\<close> on an empty list.\<close>

fun py_max :: "real list \<Rightarrow> error + real" where
  "py_max [] = Inl ValueError"
| "py_max (x # xs) = Inr (foldl max x xs)"

fun py_min :: "real list \<Rightarrow> error + real" where
  "py_min [] = Inl ValueError"
| "py_min (x # xs) = Inr (foldl min x xs)"

section \<open>The arbitrage engine (core/arbitrage.py)\<close>

text \<open>\<open>sum(1.0 / outcome.odds for outcome in outcomes)\<close>: the accumulator starts at 0 and
  the generator is consumed from the left.\<close>

fun sum_reciprocals :: "Outcome list \<Rightarrow> real \<Rightarrow> error + real" where
  "sum_reciprocals [] acc = Inr acc"
| "sum_reciprocals (x # xs) acc =
     (case float_div 1 (odds x) of
        Inl e \<Rightarrow> Inl e
      | Inr q \<Rightarrow> sum_reciprocals xs (acc + q))"

definition detect_arbitrage :: "Outcome list \<Rightarrow> error + (bool \<times> real)" where
  "detect_arbitrage os =
     (if os = [] \<or> length os < 2 then Inr (False, 0)
      else if list_ex (\<lambda>x. odds x \<le> 1) os then Inr (False, 0)
      else (case sum_reciprocals os 0 of
              Inl e \<Rightarrow> Inl e
            | Inr s \<Rightarrow> Inr (s < 1, s)))"

text \<open>The loop of \<open>calculate_optimal_stakes\<close>; the flag is \<open>round_stakes\<close>.\<close>

fun stakes_loop :: "Outcome list \<Rightarrow> real \<Rightarrow> real \<Rightarrow> bool \<Rightarrow> error + real list" where
  "stakes_loop [] b s r = Inr []"
| "stakes_loop (x # xs) b s r =
     (case float_div b (odds x) of
        Inl e \<Rightarrow> Inl e
      | Inr q \<Rightarrow>
          (case float_div q s of
             Inl e \<Rightarrow> Inl e
           | Inr stake \<Rightarrow>
               (case stakes_loop xs b s r of
                  Inl e \<Rightarrow> Inl e
                | Inr rest \<Rightarrow>
                    Inr ((if r then of_int (py_round stake) else stake) # rest))))"

definition calculate_optimal_stakes ::
  "Outcome list \<Rightarrow> real \<Rightarrow> real \<Rightarrow> bool \<Rightarrow> error + real list" where
  "calculate_optimal_stakes os b s r =
     (if 1 \<le> s then Inl ValueError else stakes_loop os b s r)"

definition calculate_guaranteed_profit :: "real \<Rightarrow> real \<Rightarrow> real" where
  "calculate_guaranteed_profit b s = (if 1 \<le> s then 0 else b * (1 - s))"

definition calculate_roi :: "real \<Rightarrow> real \<Rightarrow> error + real" where
  "calculate_roi profit total_investment =
     (if total_investment \<le> 0 then Inr 0
      else (case float_div profit total_investment of
              Inl e \<Rightarrow> Inl e
            | Inr q \<Rightarrow> Inr (q * 100)))"

definition calculate_payout :: "real \<Rightarrow> real \<Rightarrow> real" where
  "calculate_payout stake o_odds = stake * o_odds"

definition create_arbitrage_opportunity ::
  "string \<Rightarrow> Outcome list \<Rightarrow> real \<Rightarrow> error + ArbitrageOpportunity option" where
  "create_arbitrage_opportunity name os b =
     (case detect_arbitrage os of
        Inl e \<Rightarrow> Inl e
      | Inr (is_arb, s_value) \<Rightarrow>
          if \<not> is_arb then Inr None
          else (case calculate_optimal_stakes os b s_value True of
                  Inl e \<Rightarrow> Inl e
                | Inr sts \<Rightarrow>
                    (let actual_investment = sum_list sts;
                         profit = calculate_guaranteed_profit actual_investment s_value
                     in case calculate_roi profit actual_investment of
                          Inl e \<Rightarrow> Inl e
                        | Inr r \<Rightarrow>
                            Inr (Some \<lparr>event_name = name,
                                       outcomes = os,
                                       arbitrage_percentage = s_value,
                                       profit_margin = (1 - s_value) * 100,
                                       total_bankroll = actual_investment,
                                       stakes = sts,
                                       guaranteed_profit = profit,
                                       roi = r\<rparr>))))"

definition verify_arbitrage_payout :: "real list \<Rightarrow> Outcome list \<Rightarrow> error + (bool \<times> real)" where
  "verify_arbitrage_payout sts os =
     (if length sts \<noteq> length os then Inr (False, 0)
      else (let payouts = map (\<lambda>(stake, x). calculate_payout stake (odds x)) (zip sts os)
            in case py_max payouts of
                 Inl e \<Rightarrow> Inl e
               | Inr max_payout \<Rightarrow>
                   (case py_min payouts of
                      Inl e \<Rightarrow> Inl e
                    | Inr min_payout \<Rightarrow> Inr (max_payout - min_payout \<le> 1, max_payout))))"

section \<open>The market aggregator (scanner.py, scanner_real_api.py)\<close>

text \<open>
  \<open>outcomes_by_market\<close> is a dict from market label to the outcomes seen for it. Python
  dicts keep insertion order and \<open>scanner.py\<close> iterates over the keys, so the dict is an
  association list in order of first appearance, with one entry per label.
\<close>

type_synonym market_groups = "(string \<times> Outcome list) list"

text \<open>One pass of the grouping loop: create the group on first sight, else append.\<close>

fun add_outcome :: "market_groups \<Rightarrow> Outcome \<Rightarrow> market_groups" where
  "add_outcome [] x = [(market x, [x])]"
| "add_outcome ((m, g) # rest) x =
     (if m = market x then (m, g @ [x]) # rest else (m, g) # add_outcome rest x)"

definition group_by_market :: "Outcome list \<Rightarrow> market_groups" where
  "group_by_market xs = foldl add_outcome [] xs"

text \<open>\<open>scanner.py\<close> gathers one result per source and skips those that are exceptions.\<close>

fun successful_outcomes :: "(error + Outcome list) list \<Rightarrow> Outcome list" where
  "successful_outcomes [] = []"
| "successful_outcomes (Inl e # rest) = successful_outcomes rest"
| "successful_outcomes (Inr xs # rest) = xs @ successful_outcomes rest"

text \<open>\<open>max(outcomes, key=lambda x: x.odds)\<close>: the first element of maximal key, and
  \<open>ValueError\<close> on an empty list.\<close>

fun max_by_odds :: "Outcome list \<Rightarrow> error + Outcome" where
  "max_by_odds [] = Inl ValueError"
| "max_by_odds (x # xs) = Inr (foldl (\<lambda>best y. if odds best < odds y then y else best) x xs)"

text \<open>The loop of \<open>_check_three_way_arbitrage\<close> over all the market labels of the dict.\<close>

fun best_outcomes_loop :: "market_groups \<Rightarrow> error + Outcome list" where
  "best_outcomes_loop [] = Inr []"
| "best_outcomes_loop ((m, g) # rest) =
     (case max_by_odds g of
        Inl e \<Rightarrow> Inl e
      | Inr best \<Rightarrow>
          (case best_outcomes_loop rest of
             Inl e \<Rightarrow> Inl e
           | Inr bs \<Rightarrow> Inr (best # bs)))"

text \<open>\<open>_check_three_way_arbitrage\<close>; an opportunity object is truthy, so \<open>if arb\<close> tests
  for \<open>None\<close>.\<close>

definition check_three_way_arbitrage :: "string \<Rightarrow> market_groups \<Rightarrow> real \<Rightarrow> error + bool" where
  "check_three_way_arbitrage name obm bankroll =
     (if length obm \<noteq> 3 then Inr False
      else (case best_outcomes_loop obm of
              Inl e \<Rightarrow> Inl e
            | Inr best_outcomes \<Rightarrow>
                (case create_arbitrage_opportunity name best_outcomes bankroll of
                   Inl e \<Rightarrow> Inl e
                 | Inr arb \<Rightarrow> Inr (arb \<noteq> None))))"

text \<open>\<open>ArbitrageScanner.scan_event\<close> of \<open>scanner.py\<close>, from the gathered results on; the
  result says whether an opportunity was found.\<close>

definition scanner_scan_event ::
  "string \<Rightarrow> (error + Outcome list) list \<Rightarrow> real \<Rightarrow> error + bool" where
  "scanner_scan_event name all_outcomes bankroll =
     (let outcomes_by_market = group_by_market (successful_outcomes all_outcomes)
      in if length outcomes_by_market = 3
         then check_three_way_arbitrage name outcomes_by_market bankroll
         else Inr False)"

definition canonical_markets :: "string list" where
  "canonical_markets = [''Home Win'', ''Draw'', ''Away Win'']"

text \<open>The loop of \<open>scan_event\<close> in \<open>scanner_real_api.py\<close> over the three fixed labels,
  skipping a label the dict does not have.\<close>

fun canonical_best_outcomes :: "string list \<Rightarrow> market_groups \<Rightarrow> error + Outcome list" where
  "canonical_best_outcomes [] obm = Inr []"
| "canonical_best_outcomes (m # ms) obm =
     (case map_of obm m of
        None \<Rightarrow> canonical_best_outcomes ms obm
      | Some g \<Rightarrow>
          (case max_by_odds g of
             Inl e \<Rightarrow> Inl e
           | Inr best \<Rightarrow>
               (case canonical_best_outcomes ms obm of
                  Inl e \<Rightarrow> Inl e
                | Inr bs \<Rightarrow> Inr (best # bs))))"

text \<open>\<open>scan_event\<close> of \<open>scanner_real_api.py\<close>, from the fetched outcomes on; the result is
  the opportunity it displays, if any. The body sits in \<open>try ... except Exception\<close>, so an
  exception ends the scan of the event with nothing displayed.\<close>

definition real_api_scan_event ::
  "string \<Rightarrow> Outcome list \<Rightarrow> real \<Rightarrow> ArbitrageOpportunity option" where
  "real_api_scan_event name all_outcomes bankroll =
     (if all_outcomes = [] then None
      else (let outcomes_by_market = group_by_market all_outcomes
            in if 3 \<le> length outcomes_by_market
               then (case canonical_best_outcomes canonical_markets outcomes_by_market of
                       Inl e \<Rightarrow> None
                     | Inr best_outcomes \<Rightarrow>
                         if length best_outcomes = 3
                         then (case create_arbitrage_opportunity name best_outcomes bankroll of
                                 Inl e \<Rightarrow> None
                               | Inr arb \<Rightarrow> arb)
                         else None)
               else None))"

section \<open>Concrete inputs\<close>



definition two_legs :: "Outcome list" where
  "two_legs = [\<lparr>bookmaker = ''TOTO'', odds = 2, market = ''Home Win''\<rparr>,
               \<lparr>bookmaker = ''Bet365'', odds = 3, market = ''Draw''\<rparr>]"

definition three_legs :: "Outcome list" where
  "three_legs = [\<lparr>bookmaker = ''TOTO'', odds = 2, market = ''Home Win''\<rparr>,
                 \<lparr>bookmaker = ''Bet365'', odds = 3, market = ''Draw''\<rparr>,
                 \<lparr>bookmaker = ''Unibet'', odds = 7, market = ''Away Win''\<rparr>]"


definition even_pair :: "Outcome list" where
  "even_pair = [\<lparr>bookmaker = ''TOTO'', odds = 3, market = ''Home Win''\<rparr>,
                \<lparr>bookmaker = ''Bet365'', odds = 3, market = ''Away Win''\<rparr>]"

definition draw_no_bet_feed :: "Outcome list" where
  "draw_no_bet_feed =
     [\<lparr>bookmaker = ''TOTO'', odds = 3, market = ''Home Win''\<rparr>,
      \<lparr>bookmaker = ''TOTO'', odds = 36 / 10, market = ''Draw''\<rparr>,
      \<lparr>bookmaker = ''TOTO'', odds = 35 / 10, market = ''Draw No Bet''\<rparr>]"

section \<open>Facts about the primitives\<close>

lemma sum_reciprocals_eq:
  "\<not> list_ex (\<lambda>x. odds x = 0) os \<Longrightarrow>
   sum_reciprocals os acc = Inr (acc + sum_list (map (\<lambda>x. 1 / odds x) os))"
  by (induction os arbitrary: acc) (simp_all add: float_div_def algebra_simps)

lemma list_ex_zero_le_one:
  "\<not> list_ex (\<lambda>x. odds x \<le> 1) os \<Longrightarrow> \<not> list_ex (\<lambda>x. odds x = 0) os"
  by (induction os) auto


lemma py_round_nonneg: "0 \<le> x \<Longrightarrow> 0 \<le> py_round x"
proof -
  assume "0 \<le> x"
  then have "0 \<le> \<lfloor>x\<rfloor>" by simp
  then show ?thesis unfolding py_round_def Let_def by auto
qed

lemma stakes_loop_ok:
  "s \<noteq> 0 \<Longrightarrow> \<not> list_ex (\<lambda>x. odds x = 0) os \<Longrightarrow>
   stakes_loop os b s r =
     Inr (map (\<lambda>x. if r then of_int (py_round ((b / odds x) / s)) else (b / odds x) / s) os)"
  by (induction os) (simp_all add: float_div_def)



lemma sum_reciprocal_pos:
  "os \<noteq> [] \<Longrightarrow> \<not> list_ex (\<lambda>x. odds x \<le> 1) os \<Longrightarrow> 0 < sum_list (map (\<lambda>x. 1 / odds x) os)"
proof (induction os)
  case Nil
  then show ?case by simp
next
  case (Cons x xs)
  then have px: "0 < 1 / odds x" by simp
  show ?case
  proof (cases xs)
    case Nil
    with px show ?thesis by simp
  next
    case (Cons y ys)
    with Cons.IH Cons.prems have "0 < sum_list (map (\<lambda>x. 1 / odds x) xs)" by simp
    with px have "0 < 1 / odds x + sum_list (map (\<lambda>x. 1 / odds x) xs)"
      by (rule add_pos_pos)
    then show ?thesis by simp
  qed
qed

lemma detect_arbitrage_short:
  "length os < 2 \<Longrightarrow> detect_arbitrage os = Inr (False, 0)"
  by (simp add: detect_arbitrage_def)

lemma detect_arbitrage_invalid:
  "list_ex (\<lambda>x. odds x \<le> 1) os \<Longrightarrow> detect_arbitrage os = Inr (False, 0)"
  by (simp add: detect_arbitrage_def)

lemma detect_arbitrage_valid:
  assumes "\<not> length os < 2" and "\<not> list_ex (\<lambda>x. odds x \<le> 1) os"
  shows "detect_arbitrage os =
           Inr (sum_list (map (\<lambda>x. 1 / odds x) os) < 1, sum_list (map (\<lambda>x. 1 / odds x) os))"
proof -
  from assms(1) have "os \<noteq> []" by auto
  with assms show ?thesis
    unfolding detect_arbitrage_def
    by (simp add: sum_reciprocals_eq list_ex_zero_le_one)
qed

lemma foldl_max_Max: "foldl max (x::real) xs = Max (set (x # xs))"
proof -
  have "(\<lambda>y s. max s y) = (max :: real \<Rightarrow> real \<Rightarrow> real)"
    by (intro ext) (rule max.commute)
  then show ?thesis
    by (simp only: foldl_conv_fold Max.set_eq_fold)
qed

lemma foldl_min_Min: "foldl min (x::real) xs = Min (set (x # xs))"
proof -
  have "(\<lambda>y s. min s y) = (min :: real \<Rightarrow> real \<Rightarrow> real)"
    by (intro ext) (rule min.commute)
  then show ?thesis
    by (simp only: foldl_conv_fold Min.set_eq_fold)
qed

lemma py_max_Max: "ps \<noteq> [] \<Longrightarrow> py_max ps = Inr (Max (set ps))"
  by (cases ps) (simp_all only: py_max.simps foldl_max_Max, simp)

lemma py_min_Min: "ps \<noteq> [] \<Longrightarrow> py_min ps = Inr (Min (set ps))"
  by (cases ps) (simp_all only: py_min.simps foldl_min_Min, simp)

lemma spread_iff:
  fixes ps :: "real list"
  assumes "ps \<noteq> []"
  shows "Max (set ps) - Min (set ps) \<le> 1 \<longleftrightarrow>
         (\<forall>i<length ps. \<forall>j<length ps. ps ! i - ps ! j \<le> 1)"
proof
  assume le: "Max (set ps) - Min (set ps) \<le> 1"
  show "\<forall>i<length ps. \<forall>j<length ps. ps ! i - ps ! j \<le> 1"
  proof (intro allI impI)
    fix i j assume "i < length ps" "j < length ps"
    then have "ps ! i \<le> Max (set ps)" "Min (set ps) \<le> ps ! j"
      by simp_all
    with le show "ps ! i - ps ! j \<le> 1" by linarith
  qed
next
  assume all: "\<forall>i<length ps. \<forall>j<length ps. ps ! i - ps ! j \<le> 1"
  from assms have "Max (set ps) \<in> set ps" "Min (set ps) \<in> set ps"
    by (simp_all add: Max_in Min_in)
  then obtain i j where "i < length ps" "ps ! i = Max (set ps)"
    "j < length ps" "ps ! j = Min (set ps)"
    by (auto simp: in_set_conv_nth)
  with all show "Max (set ps) - Min (set ps) \<le> 1" by metis
qed

lemma verify_arbitrage_payout_spread:
  assumes len: "length sts = length os" and ne: "os \<noteq> []"
  shows "\<exists>mx. verify_arbitrage_payout sts os =
           Inr (\<forall>i<length os. \<forall>j<length os.
                  calculate_payout (sts ! i) (odds (os ! i)) -
                  calculate_payout (sts ! j) (odds (os ! j)) \<le> 1, mx)"
proof -
  define ps where "ps = map (\<lambda>(stake, x). calculate_payout stake (odds x)) (zip sts os)"
  have lps: "length ps = length os"
    using len by (simp add: ps_def)
  with ne have pne: "ps \<noteq> []" by auto
  have nth: "ps ! i = calculate_payout (sts ! i) (odds (os ! i))" if "i < length os" for i
    using that len by (simp add: ps_def)
  have "verify_arbitrage_payout sts os =
          Inr (Max (set ps) - Min (set ps) \<le> 1, Max (set ps))"
    using len pne
    by (simp add: verify_arbitrage_payout_def Let_def ps_def [symmetric] py_max_Max py_min_Min)
  also have "Max (set ps) - Min (set ps) \<le> 1 \<longleftrightarrow>
      (\<forall>i<length os. \<forall>j<length os.
          calculate_payout (sts ! i) (odds (os ! i)) -
          calculate_payout (sts ! j) (odds (os ! j)) \<le> 1)"
    using spread_iff [OF pne] lps nth by simp
  finally show ?thesis by blast
qed

lemma detect_arbitrage_TrueD:
  assumes "detect_arbitrage os = Inr (True, s)"
  shows "\<not> length os < 2" and "\<not> list_ex (\<lambda>x. odds x \<le> 1) os"
    and "s = sum_list (map (\<lambda>x. 1 / odds x) os)" and "s < 1" and "0 < s"
proof -
  show a: "\<not> length os < 2"
    using assms by (auto simp: detect_arbitrage_short)
  show b: "\<not> list_ex (\<lambda>x. odds x \<le> 1) os"
    using assms by (auto simp: detect_arbitrage_invalid)
  from assms detect_arbitrage_valid [OF a b]
  show c: "s = sum_list (map (\<lambda>x. 1 / odds x) os)" and "s < 1"
    by simp_all
  from a have "os \<noteq> []" by auto
  from sum_reciprocal_pos [OF this b] c show "0 < s" by simp
qed

lemma detect_arbitrage_total: "\<exists>a s. detect_arbitrage os = Inr (a, s)"
proof (cases "length os < 2 \<or> list_ex (\<lambda>x. odds x \<le> 1) os")
  case True
  then have "detect_arbitrage os = Inr (False, 0)"
    by (auto simp: detect_arbitrage_short detect_arbitrage_invalid)
  then show ?thesis by blast
next
  case False
  then show ?thesis
    using detect_arbitrage_valid [of os] by blast
qed

lemma rounded_stakes_eq:
  assumes "detect_arbitrage os = Inr (True, s)"
  shows "calculate_optimal_stakes os b s True =
           Inr (map (\<lambda>x. of_int (py_round ((b / odds x) / s))) os)"
proof -
  from detect_arbitrage_TrueD [OF assms]
  have "s < 1" "s \<noteq> 0" "\<not> list_ex (\<lambda>x. odds x = 0) os"
    by (simp_all add: list_ex_zero_le_one)
  then show ?thesis
    by (simp add: calculate_optimal_stakes_def stakes_loop_ok)
qed

lemma create_arbitrage_opportunity_reject:
  "detect_arbitrage os = Inr (False, s) \<Longrightarrow> create_arbitrage_opportunity name os b = Inr None"
  by (simp add: create_arbitrage_opportunity_def)

lemma create_arbitrage_opportunity_accept:
  assumes "detect_arbitrage os = Inr (True, s)"
    and "sts = map (\<lambda>x. real_of_int (py_round ((b / odds x) / s))) os"
  shows "create_arbitrage_opportunity name os b =
     Inr (Some \<lparr>event_name = name, outcomes = os, arbitrage_percentage = s,
                profit_margin = (1 - s) * 100,
                total_bankroll = sum_list sts,
                stakes = sts,
                guaranteed_profit = sum_list sts * (1 - s),
                roi = (if sum_list sts \<le> 0 then 0
                       else sum_list sts * (1 - s) / sum_list sts * 100)\<rparr>)"
proof -
  from detect_arbitrage_TrueD [OF assms(1)] have "s < 1" by simp
  then show ?thesis
    using assms rounded_stakes_eq [OF assms(1), of b]
    by (simp add: create_arbitrage_opportunity_def Let_def calculate_roi_def
        calculate_guaranteed_profit_def float_div_def)
qed


section \<open>Facts about the aggregator\<close>

lemma map_of_add_outcome:
  "map_of (add_outcome obm x) m =
     (if m = market x
      then Some ((case map_of obm m of None \<Rightarrow> [] | Some g \<Rightarrow> g) @ [x])
      else map_of obm m)"
  by (induction obm x rule: add_outcome.induct) auto

lemma map_of_group_by_market:
  "map_of (group_by_market xs) m =
     (if m \<in> market ` set xs then Some (filter (\<lambda>x. market x = m) xs) else None)"
proof (induction xs rule: rev_induct)
  case Nil
  then show ?case by (simp add: group_by_market_def)
next
  case (snoc x xs)
  have step: "map_of (group_by_market (xs @ [x])) m =
      (if m = market x
       then Some ((case map_of (group_by_market xs) m of None \<Rightarrow> [] | Some g \<Rightarrow> g) @ [x])
       else map_of (group_by_market xs) m)"
    by (simp add: group_by_market_def map_of_add_outcome)
  have none: "filter (\<lambda>x. market x = m) xs = []" if "m \<notin> market ` set xs"
    using that by (auto simp: filter_empty_conv)
  have old: "(case map_of (group_by_market xs) m of None \<Rightarrow> [] | Some g \<Rightarrow> g) =
      filter (\<lambda>x. market x = m) xs"
    using none by (cases "m \<in> market ` set xs") (simp_all add: snoc)
  show ?case
    unfolding step old using snoc by (cases "m = market x") simp_all
qed

lemma foldl_best_odds:
  "\<exists>i<length (x # xs).
      foldl (\<lambda>best y. if odds best < odds y then y else best) x xs = (x # xs) ! i \<and>
      (\<forall>j<length (x # xs). odds ((x # xs) ! j) \<le> odds ((x # xs) ! i)) \<and>
      (\<forall>j<i. odds ((x # xs) ! j) < odds ((x # xs) ! i))"
proof (induction xs rule: rev_induct)
  case Nil
  then show ?case by simp
next
  case (snoc y ys)
  then obtain i where i: "i < length (x # ys)"
    and best: "foldl (\<lambda>best y. if odds best < odds y then y else best) x ys = (x # ys) ! i"
    and ge: "\<forall>j<length (x # ys). odds ((x # ys) ! j) \<le> odds ((x # ys) ! i)"
    and first: "\<forall>j<i. odds ((x # ys) ! j) < odds ((x # ys) ! i)"
    by blast
  have nth: "(x # ys @ [y]) ! j = (x # ys) ! j" if "j < length (x # ys)" for j
    using that by (metis append_Cons nth_append)
  have last: "(x # ys @ [y]) ! length (x # ys) = y"
    by (metis append_Cons nth_append_length)
  show ?case
  proof (cases "odds ((x # ys) ! i) < odds y")
    case True
    have "foldl (\<lambda>best y. if odds best < odds y then y else best) x (ys @ [y]) = y"
      using True best by simp
    moreover have "\<forall>j<length (x # ys @ [y]). odds ((x # ys @ [y]) ! j) \<le> odds y"
    proof (intro allI impI)
      fix j assume "j < length (x # ys @ [y])"
      then consider "j < length (x # ys)" | "j = length (x # ys)" by fastforce
      then show "odds ((x # ys @ [y]) ! j) \<le> odds y"
      proof cases
        case 1
        with ge True nth [OF 1] show ?thesis by fastforce
      next
        case 2
        with last show ?thesis by simp
      qed
    qed
    moreover have "\<forall>j<length (x # ys). odds ((x # ys @ [y]) ! j) < odds y"
    proof (intro allI impI)
      fix j assume j: "j < length (x # ys)"
      with ge True nth [OF j] show "odds ((x # ys @ [y]) ! j) < odds y" by fastforce
    qed
    ultimately show ?thesis
      using last by (intro exI [of _ "length (x # ys)"]) simp
  next
    case False
    have "foldl (\<lambda>best y. if odds best < odds y then y else best) x (ys @ [y]) = (x # ys) ! i"
      using False best by simp
    moreover have "\<forall>j<length (x # ys @ [y]). odds ((x # ys @ [y]) ! j) \<le> odds ((x # ys) ! i)"
    proof (intro allI impI)
      fix j assume "j < length (x # ys @ [y])"
      then consider "j < length (x # ys)" | "j = length (x # ys)" by fastforce
      then show "odds ((x # ys @ [y]) ! j) \<le> odds ((x # ys) ! i)"
      proof cases
        case 1
        with ge nth [OF 1] show ?thesis by simp
      next
        case 2
        with last False show ?thesis by simp
      qed
    qed
    moreover have "\<forall>j<i. odds ((x # ys @ [y]) ! j) < odds ((x # ys) ! i)"
    proof (intro allI impI)
      fix j assume "j < i"
      with i have "j < length (x # ys)" by simp
      from nth [OF this] first \<open>j < i\<close> show "odds ((x # ys @ [y]) ! j) < odds ((x # ys) ! i)"
        by simp
    qed
    ultimately show ?thesis
      using i nth [OF i] by (intro exI [of _ i]) simp
  qed
qed

lemma max_by_odds_first_max:
  assumes "max_by_odds g = Inr b"
  shows "\<exists>i<length g. b = g ! i \<and> (\<forall>j<length g. odds (g ! j) \<le> odds b) \<and>
           (\<forall>j<i. odds (g ! j) < odds b)"
proof (cases g)
  case Nil
  with assms show ?thesis by simp
next
  case (Cons x xs)
  with assms have "b = foldl (\<lambda>best y. if odds best < odds y then y else best) x xs"
    by simp
  with foldl_best_odds [of x xs] Cons show ?thesis by auto
qed

lemma max_by_odds_nonempty: "g \<noteq> [] \<Longrightarrow> \<exists>b. max_by_odds g = Inr b"
  by (cases g) simp_all

lemma group_lookup_best:
  assumes "map_of (group_by_market xs) m = Some g" and "max_by_odds g = Inr b"
  shows "market b = m \<and> b \<in> set xs \<and> (\<forall>y\<in>set xs. market y = m \<longrightarrow> odds y \<le> odds b)"
proof -
  from assms(1) have g: "g = filter (\<lambda>x. market x = m) xs"
    by (simp add: map_of_group_by_market split: if_splits)
  from max_by_odds_first_max [OF assms(2)] obtain i where i: "i < length g" "b = g ! i"
    and ge: "\<forall>j<length g. odds (g ! j) \<le> odds b"
    by blast
  from i have "b \<in> set g" by simp
  with g have "market b = m" "b \<in> set xs" by simp_all
  moreover have "odds y \<le> odds b" if "y \<in> set xs" "market y = m" for y
  proof -
    from that g have "y \<in> set g" by simp
    then obtain j where "j < length g" "g ! j = y"
      by (auto simp: in_set_conv_nth)
    with ge show ?thesis by auto
  qed
  ultimately show ?thesis by blast
qed

lemma canonical_best_outcomes_markets:
  "canonical_best_outcomes ms (group_by_market xs) = Inr best \<Longrightarrow>
   map market best = filter (\<lambda>m. m \<in> market ` set xs) ms \<and>
   (\<forall>b\<in>set best. b \<in> set xs \<and> (\<forall>y\<in>set xs. market y = market b \<longrightarrow> odds y \<le> odds b))"
proof (induction ms arbitrary: best)
  case Nil
  then show ?case by simp
next
  case (Cons m ms)
  show ?case
  proof (cases "map_of (group_by_market xs) m")
    case None
    then have "m \<notin> market ` set xs"
      by (simp add: map_of_group_by_market split: if_splits)
    with None Cons show ?thesis by simp
  next
    case (Some g)
    then have mem: "m \<in> market ` set xs"
      by (simp add: map_of_group_by_market split: if_splits)
    from Some Cons.prems obtain b bs where b: "max_by_odds g = Inr b"
      and bs: "canonical_best_outcomes ms (group_by_market xs) = Inr bs"
      and best: "best = b # bs"
      by (auto split: sum.splits)
    from group_lookup_best [OF Some b] Cons.IH [OF bs] mem best
    show ?thesis by simp
  qed
qed

lemma filter_full_length:
  assumes "length (filter P xs) = length xs"
  shows "filter P xs = xs"
proof -
  have "P x" if "x \<in> set xs" for x
  proof (rule ccontr)
    assume "\<not> P x"
    with that have "length (filter P xs) < length xs"
      by (rule length_filter_less)
    with assms show False by simp
  qed
  then show ?thesis by (simp add: filter_id_conv)
qed

lemma real_api_selection_canonical:
  assumes "real_api_scan_event name xs b = Some opp"
  shows "map market (outcomes opp) = canonical_markets \<and>
         (\<forall>x\<in>set (outcomes opp). x \<in> set xs \<and>
            (\<forall>y\<in>set xs. market y = market x \<longrightarrow> odds y \<le> odds x))"
proof -
  from assms obtain best where sel:
      "canonical_best_outcomes canonical_markets (group_by_market xs) = Inr best"
    and len: "length best = 3"
    and c: "create_arbitrage_opportunity name best b = Inr (Some opp)"
    by (auto simp: real_api_scan_event_def Let_def split: if_splits sum.splits)
  obtain a s where det: "detect_arbitrage best = Inr (a, s)"
    using detect_arbitrage_total by blast
  with c have "a"
    by (cases a) (simp_all add: create_arbitrage_opportunity_reject)
  with det have "detect_arbitrage best = Inr (True, s)" by simp
  from create_arbitrage_opportunity_accept [OF this refl, of name b] c
  have out: "outcomes opp = best" by auto
  from canonical_best_outcomes_markets [OF sel]
  have m: "map market best = filter (\<lambda>m. m \<in> market ` set xs) canonical_markets"
    and mx: "\<forall>b\<in>set best. b \<in> set xs \<and> (\<forall>y\<in>set xs. market y = market b \<longrightarrow> odds y \<le> odds b)"
    by simp_all
  from m have "length (filter (\<lambda>m. m \<in> market ` set xs) canonical_markets) = length best"
    by (metis length_map)
  with len have "length (filter (\<lambda>m. m \<in> market ` set xs) canonical_markets) =
      length canonical_markets"
    by (simp add: canonical_markets_def)
  then have "filter (\<lambda>m. m \<in> market ` set xs) canonical_markets = canonical_markets"
    by (rule filter_full_length)
  with m mx out show ?thesis by simp
qed

section \<open>Detection\<close>



section \<open>Building an opportunity\<close>



section \<open>Stake allocation\<close>






section \<open>Rounded stakes and payout verification\<close>




text \<open>
  Claim C10. On two empty lists \<open>verify_arbitrage_payout\<close> raises the \<open>ValueError\<close> of
  \<open>max\<close> on an empty sequence. It returns a pair exactly when both lists are non-empty
  or their lengths differ.
\<close>

theorem verify_arbitrage_payout_empty:
  "verify_arbitrage_payout [] [] = Inl ValueError \<and>
   ((\<exists>res. verify_arbitrage_payout sts os = Inr res) \<longleftrightarrow>
      (sts \<noteq> [] \<and> os \<noteq> []) \<or> length sts \<noteq> length os)"
proof
  show "verify_arbitrage_payout [] [] = Inl ValueError"
    by (simp add: verify_arbitrage_payout_def)
next
  show "(\<exists>res. verify_arbitrage_payout sts os = Inr res) \<longleftrightarrow>
      (sts \<noteq> [] \<and> os \<noteq> []) \<or> length sts \<noteq> length os"
  proof (cases "length sts = length os")
    case False
    then have "verify_arbitrage_payout sts os = Inr (False, 0)"
      by (simp add: verify_arbitrage_payout_def)
    with False show ?thesis by blast
  next
    case True
    show ?thesis
    proof (cases "os = []")
      case e: True
      with True show ?thesis by (simp add: verify_arbitrage_payout_def)
    next
      case False
      with True have "sts \<noteq> []" by auto
      with False True verify_arbitrage_payout_spread [OF True False] show ?thesis by auto
    qed
  qed
qed

theorem verify_arbitrage_payout_empty_witness:
  "verify_arbitrage_payout [600, 400] two_legs = Inr (True, 1200) \<and>
   verify_arbitrage_payout [600] two_legs = Inr (False, 0) \<and>
   verify_arbitrage_payout [] [] = Inl ValueError"
  using verify_arbitrage_payout_empty [of "[600, 400]" two_legs]
    verify_arbitrage_payout_empty [of "[600]" two_legs]
  by (simp add: two_legs_def verify_arbitrage_payout_def calculate_payout_def)

section \<open>Profit\<close>

text \<open>
  The claim C7 as written says the profit is never negative, for every bankroll. A
  negative bankroll with \<open>S < 1\<close> gives a negative result.
\<close>

theorem negative_profit_counterexample:
  "(1 / 2 :: real) < 1 \<and> calculate_guaranteed_profit (- 100) (1 / 2) = - 50"
  by (simp add: calculate_guaranteed_profit_def)

text \<open>
  Claim C7, amended. \<open>calculate_guaranteed_profit B S\<close> is \<open>B * (1 - S)\<close> when \<open>S < 1\<close> and
  \<open>0\<close> when \<open>S \<ge> 1\<close>; it is not negative when \<open>B\<close> is not negative. The function is
  total: its body only compares, subtracts and multiplies, so nothing in it can raise.
\<close>

theorem calculate_guaranteed_profit_spec:
  "calculate_guaranteed_profit b s = (if s < 1 then b * (1 - s) else 0) \<and>
   (0 \<le> b \<longrightarrow> 0 \<le> calculate_guaranteed_profit b s)"
  by (simp add: calculate_guaranteed_profit_def)

theorem calculate_guaranteed_profit_spec_witness:
  "(0::real) \<le> 1000 \<and> calculate_guaranteed_profit 1000 (95 / 100) = 50 \<and>
   0 \<le> calculate_guaranteed_profit 1000 (95 / 100) \<and>
   calculate_guaranteed_profit 1000 (11 / 10) = 0"
  using calculate_guaranteed_profit_spec [of 1000 "95 / 100"]
    calculate_guaranteed_profit_spec [of 1000 "11 / 10"]
  by simp

section \<open>Invariants of a constructed opportunity\<close>

text \<open>
  The claim C8 as written says every stake of a constructed opportunity is non-negative.
  A negative requested bankroll passes through the allocation unchanged in sign.
\<close>

theorem negative_stakes_counterexample:
  "create_arbitrage_opportunity ''Ajax vs PSV'' even_pair (- 1000) =
     Inr (Some \<lparr>event_name = ''Ajax vs PSV'', outcomes = even_pair,
                arbitrage_percentage = 2 / 3, profit_margin = 100 / 3,
                total_bankroll = - 1000, stakes = [- 500, - 500],
                guaranteed_profit = - (1000 / 3), roi = 0\<rparr>)"
  by (simp add: even_pair_def create_arbitrage_opportunity_def detect_arbitrage_def
      calculate_optimal_stakes_def calculate_guaranteed_profit_def calculate_roi_def
      float_div_def py_round_def Let_def)

text \<open>
  Claim C8, amended. Every opportunity that \<open>create_arbitrage_opportunity\<close> constructs has
  as many stakes as outcomes, \<open>arbitrage_percentage < 1\<close>, and integer-valued stakes; the
  stakes are non-negative when the requested bankroll is non-negative.
\<close>

theorem create_arbitrage_opportunity_invariants:
  assumes "create_arbitrage_opportunity name os b = Inr (Some opp)"
  shows "length (stakes opp) = length (outcomes opp) \<and> arbitrage_percentage opp < 1 \<and>
         (\<forall>x\<in>set (stakes opp). x \<in> \<int>) \<and>
         (0 \<le> b \<longrightarrow> (\<forall>x\<in>set (stakes opp). 0 \<le> x))"
proof -
  obtain a s where det: "detect_arbitrage os = Inr (a, s)"
    using detect_arbitrage_total by blast
  have a
  proof (rule ccontr)
    assume "\<not> a"
    with det assms show False
      by (simp add: create_arbitrage_opportunity_reject)
  qed
  with det have d: "detect_arbitrage os = Inr (True, s)" by simp
  note facts = detect_arbitrage_TrueD [OF d]
  define sts where "sts = map (\<lambda>x. real_of_int (py_round ((b / odds x) / s))) os"
  from create_arbitrage_opportunity_accept [OF d sts_def, of name] assms
  have opp: "stakes opp = sts" "outcomes opp = os" "arbitrage_percentage opp = s"
    by auto
  have nonneg: "0 \<le> x" if "0 \<le> b" "x \<in> set sts" for x
  proof -
    from that(2) obtain y where y: "y \<in> set os" "x = real_of_int (py_round ((b / odds y) / s))"
      by (auto simp: sts_def)
    from y(1) facts(2) have "1 < odds y" by (auto simp: list_ex_iff)
    with that(1) facts(5) have "0 \<le> (b / odds y) / s" by simp
    then show ?thesis using y(2) by (simp add: py_round_nonneg)
  qed
  have "\<forall>x\<in>set sts. x \<in> \<int>"
    by (auto simp: sts_def)
  with opp facts(4) nonneg show ?thesis
    by (simp add: sts_def)
qed

theorem create_arbitrage_opportunity_invariants_witness:
  "(0::real) \<le> 100 \<and>
   create_arbitrage_opportunity ''Ajax vs PSV'' three_legs 100 =
     Inr (Some \<lparr>event_name = ''Ajax vs PSV'', outcomes = three_legs,
                arbitrage_percentage = 41 / 42, profit_margin = 100 / 42,
                total_bankroll = 100, stakes = [51, 34, 15],
                guaranteed_profit = 100 / 42, roi = 100 / 42\<rparr>) \<and>
   length [51, 34, 15 :: real] = length three_legs \<and> (41 / 42 :: real) < 1 \<and>
   list_all (\<lambda>x. x \<in> \<int> \<and> 0 \<le> x) [51, 34, 15 :: real]"
proof -
  have c: "create_arbitrage_opportunity ''Ajax vs PSV'' three_legs 100 =
     Inr (Some \<lparr>event_name = ''Ajax vs PSV'', outcomes = three_legs,
                arbitrage_percentage = 41 / 42, profit_margin = 100 / 42,
                total_bankroll = 100, stakes = [51, 34, 15],
                guaranteed_profit = 100 / 42, roi = 100 / 42\<rparr>)"
    by (simp add: three_legs_def create_arbitrage_opportunity_def detect_arbitrage_def
      calculate_optimal_stakes_def calculate_guaranteed_profit_def calculate_roi_def
      float_div_def py_round_def Let_def)
  from create_arbitrage_opportunity_invariants [OF c] c show ?thesis
    by simp
qed

section \<open>Scenario A\<close>



section \<open>Aggregation\<close>

text \<open>
  Claim C4 asks that only the three canonical markets reach the engine. The path of
  \<open>scanner_real_api.py\<close> does that (\<open>real_api_selection_canonical\<close> above: whatever it
  builds has exactly the markets Home Win, Draw, Away Win, each leg of maximal odds for
  its market). The path of \<open>scanner.py\<close> takes any three labels: a feed with Home Win,
  Draw and Draw No Bet is grouped into three markets, the best outcome of each is passed
  on, Draw No Bet included, and an arbitrage is reported; the other path reports none.
\<close>

theorem scanner_passes_extraneous_market:
  "successful_outcomes [Inr draw_no_bet_feed] = draw_no_bet_feed \<and>
   map fst (group_by_market draw_no_bet_feed) = [''Home Win'', ''Draw'', ''Draw No Bet''] \<and>
   best_outcomes_loop (group_by_market draw_no_bet_feed) = Inr draw_no_bet_feed \<and>
   create_arbitrage_opportunity ''Ajax vs PSV'' draw_no_bet_feed 1000 =
     Inr (Some \<lparr>event_name = ''Ajax vs PSV'', outcomes = draw_no_bet_feed,
                arbitrage_percentage = 113 / 126, profit_margin = 650 / 63,
                total_bankroll = 1001, stakes = [372, 310, 319],
                guaranteed_profit = 1859 / 18, roi = 650 / 63\<rparr>) \<and>
   scanner_scan_event ''Ajax vs PSV'' [Inr draw_no_bet_feed] 1000 = Inr True \<and>
   real_api_scan_event ''Ajax vs PSV'' draw_no_bet_feed 1000 = None"
  by (simp add: draw_no_bet_feed_def group_by_market_def scanner_scan_event_def
      check_three_way_arbitrage_def real_api_scan_event_def canonical_markets_def
      create_arbitrage_opportunity_def detect_arbitrage_def calculate_optimal_stakes_def
      calculate_guaranteed_profit_def calculate_roi_def float_div_def py_round_def Let_def)

end
